theory Spec2Isabelle
  imports Complex_Main "HOL-Library.Multiset" "HOL-Library.Sublist"
begin

section \<open>JavaScript values and string helpers\<close>

text \<open>
  The server of \<^verbatim>\<open>src/server.js\<close> is an Express application with two handlers and an
  in-page extraction script. JavaScript strings are modelled as \<^typ>\<open>string\<close>, one
  \<^typ>\<open>char\<close> per code unit below 256; numbers read from the DOM (\<^verbatim>\<open>naturalWidth\<close>,
  \<^verbatim>\<open>width\<close>, \<^verbatim>\<open>innerHeight\<close>) are unsigned integers, hence \<^typ>\<open>nat\<close>; a property
  that may be \<^verbatim>\<open>undefined\<close> is an \<^typ>\<open>string option\<close>.
\<close>

text \<open>\<^verbatim>\<open>s.startsWith(p)\<close>\<close>

definition startsWith :: "string \<Rightarrow> string \<Rightarrow> bool" where
  "startsWith s p = (take (length p) s = p)"

text \<open>\<^verbatim>\<open>s.includes(p)\<close>: \<^verbatim>\<open>p\<close> occurs at some position of \<^verbatim>\<open>s\<close>.\<close>

fun includes_str :: "string \<Rightarrow> string \<Rightarrow> bool" where
  "includes_str [] p = (p = [])"
| "includes_str (c # cs) p = (startsWith (c # cs) p \<or> includes_str cs p)"

text \<open>\<^verbatim>\<open>s.split(d)\<close> for a one-character separator: never the empty array.\<close>

fun split_str :: "string \<Rightarrow> char \<Rightarrow> string list" where
  "split_str [] d = [[]]"
| "split_str (c # cs) d =
     (if c = d then [] # split_str cs d
      else (case split_str cs d of
              [] \<Rightarrow> [[c]]
            | w # ws \<Rightarrow> (c # w) # ws))"

text \<open>
  White space and line terminators of ECMAScript among the code units below 256:
  TAB, LF, VT, FF, CR, SP and NBSP.
\<close>

definition isWhiteSpace :: "char \<Rightarrow> bool" where
  "isWhiteSpace c = (c \<in> set [CHR 0x09, CHR 0x0A, CHR 0x0B, CHR 0x0C, CHR 0x0D, CHR 0x20, CHR 0xA0])"

text \<open>\<^verbatim>\<open>s.trim()\<close>\<close>

definition trim :: "string \<Rightarrow> string" where
  "trim s = rev (dropWhile isWhiteSpace (rev (dropWhile isWhiteSpace s)))"

text \<open>\<^verbatim>\<open>xs[0]\<close> of an array of strings; \<^verbatim>\<open>undefined\<close> on the empty array.\<close>

definition first_item :: "string list \<Rightarrow> string option" where
  "first_item xs = (case xs of [] \<Rightarrow> None | x # _ \<Rightarrow> Some x)"

text \<open>Decimal rendering of an index inside a template literal.\<close>

definition digit :: "nat \<Rightarrow> char" where
  "digit n = ''0123456789'' ! n"

function string_of_nat :: "nat \<Rightarrow> string" where
  "string_of_nat n =
     (if n < 10 then [digit n] else string_of_nat (n div 10) @ [digit (n mod 10)])"
  by pat_completeness auto
termination
  by (relation "measure id") auto

declare string_of_nat.simps [simp del]

text \<open>
  The operator \<^verbatim>\<open>||\<close>: the left operand when it is truthy, else the right one.
  The number 0, the empty string and \<^verbatim>\<open>undefined\<close> are falsy.
\<close>

definition or_num :: "nat \<Rightarrow> nat \<Rightarrow> nat" where
  "or_num a b = (if a \<noteq> 0 then a else b)"

definition or_str :: "string \<Rightarrow> string \<Rightarrow> string" where
  "or_str a b = (if a \<noteq> [] then a else b)"

definition truthy_str :: "string option \<Rightarrow> bool" where
  "truthy_str a = (case a of None \<Rightarrow> False | Some s \<Rightarrow> s \<noteq> [])"

definition or_prop :: "string option \<Rightarrow> string option \<Rightarrow> string option" where
  "or_prop a b = (if truthy_str a then a else b)"

text \<open>\<^verbatim>\<open>x && x.startsWith(p)\<close> and \<^verbatim>\<open>x && x.includes(p)\<close> as conditions.\<close>

definition and_startsWith :: "string option \<Rightarrow> string \<Rightarrow> bool" where
  "and_startsWith a p = (case a of None \<Rightarrow> False | Some s \<Rightarrow> s \<noteq> [] \<and> startsWith s p)"

definition and_includes :: "string option \<Rightarrow> string \<Rightarrow> bool" where
  "and_includes a p = (case a of None \<Rightarrow> False | Some s \<Rightarrow> s \<noteq> [] \<and> includes_str s p)"

section \<open>The regular expression of the background-image method\<close>

text \<open>
  \<^verbatim>\<open>bgImage.match(/url\(["']?(.*?)["']?\)/)\<close>. The match starts at the leftmost
  position where it succeeds. After \<^verbatim>\<open>url(\<close> an opening quote is consumed when there
  is one; the lazy group then takes the fewest characters, none of them a line
  terminator, such that what follows is a closing parenthesis or a quote followed by a
  closing parenthesis. \<open>capture\<close> is that group, \<open>match_url\<close> the value of
  \<^verbatim>\<open>urlMatch && urlMatch[1]\<close> (\<open>None\<close> when there is no match).
\<close>

definition isQuote :: "char \<Rightarrow> bool" where
  "isQuote c = (c = CHR 0x22 \<or> c = CHR 0x27)"

definition isLineTerminator :: "char \<Rightarrow> bool" where
  "isLineTerminator c = (c = CHR 0x0A \<or> c = CHR 0x0D)"

fun capture :: "string \<Rightarrow> string option" where
  "capture [] = None"
| "capture (c # cs) =
     (if c = CHR 0x29 then Some []
      else if isQuote c \<and> startsWith cs [CHR 0x29] then Some []
      else if isLineTerminator c then None
      else map_option (\<lambda>g. c # g) (capture cs))"

definition match_here :: "string \<Rightarrow> string option" where
  "match_here s =
     (if startsWith s ''url('' then
        (let r = drop 4 s in
         case r of
           [] \<Rightarrow> None
         | q # r' \<Rightarrow> if isQuote q then capture r' else capture r)
      else None)"

fun match_url :: "string \<Rightarrow> string option" where
  "match_url [] = None"
| "match_url (c # cs) =
     (case match_here (c # cs) of
        Some g \<Rightarrow> Some g
      | None \<Rightarrow> match_url cs)"

section \<open>The in-page extraction script\<close>

subsection \<open>Image candidates and the elements the script reads\<close>

text \<open>
  An entry of the array \<^verbatim>\<open>images\<close>. Only the background-image method sets
  \<^verbatim>\<open>element\<close>.
\<close>

record image =
  src :: string
  alt :: string
  type :: string
  element :: "string option"
  width :: nat
  height :: nat

text \<open>
  What the script reads of the elements that each of its four
  \<^verbatim>\<open>document.querySelectorAll\<close> calls returns: of an \<^verbatim>\<open>img\<close> its source, alternative
  text and sizes; of any element its computed \<^verbatim>\<open>backgroundImage\<close> and tag name; of a
  picture or srcset element its \<^verbatim>\<open>srcset\<close> and \<^verbatim>\<open>src\<close>; of a lazy-loading element
  its five \<^verbatim>\<open>dataset\<close> entries.
\<close>

record img_element =
  img_src :: string
  img_alt :: string
  naturalWidth :: nat
  img_width :: nat
  naturalHeight :: nat
  img_height :: nat

record styled_element =
  backgroundImage :: "string option"
  tagName :: string

record srcset_element =
  el_srcset :: "string option"
  el_src :: "string option"

record lazy_element =
  dataset_src :: "string option"
  dataset_lazySrc :: "string option"
  dataset_original :: "string option"
  dataset_image :: "string option"
  dataset_bg :: "string option"

text \<open>The page as the script sees it: the results of its four queries.\<close>

record document =
  imgElements :: "img_element list"
  allElements :: "styled_element list"
  pictureElements :: "srcset_element list"
  lazyImages :: "lazy_element list"

subsection \<open>The four detection methods\<close>

text \<open>
  \<^verbatim>\<open>xs.forEach((x, index) => { if (...) images.push(...) })\<close>: the callback pushes
  one candidate or none; \<open>forEach_push\<close> is what the loop appends to \<^verbatim>\<open>images\<close>.
\<close>

definition forEach_push :: "('a \<Rightarrow> nat \<Rightarrow> image option) \<Rightarrow> 'a list \<Rightarrow> image list" where
  "forEach_push f xs = List.map_filter (\<lambda>(index, x). f x index) (List.enumerate 0 xs)"

text \<open>Method 1: standard img tags.\<close>

definition img_tag :: "img_element \<Rightarrow> nat \<Rightarrow> image option" where
  "img_tag img index =
     (if img_src img \<noteq> [] \<and> startsWith (img_src img) ''http'' then
        Some \<lparr>src = img_src img,
              alt = or_str (img_alt img) (''image-'' @ string_of_nat index),
              type = ''img-tag'',
              element = None,
              width = or_num (or_num (naturalWidth img) (img_width img)) 0,
              height = or_num (or_num (naturalHeight img) (img_height img)) 0\<rparr>
      else None)"

text \<open>Method 2: background images.\<close>

definition background_image :: "styled_element \<Rightarrow> nat \<Rightarrow> image option" where
  "background_image el index =
     (let bgImage = backgroundImage el in
      if truthy_str bgImage \<and> bgImage \<noteq> Some ''none'' \<and> and_includes bgImage ''url('' then
        (let urlMatch = match_url (the bgImage) in
         if and_startsWith urlMatch ''http'' then
           Some \<lparr>src = the urlMatch,
                 alt = ''background-'' @ string_of_nat index,
                 type = ''background-image'',
                 element = Some (tagName el),
                 width = 0,
                 height = 0\<rparr>
         else None)
      else None)"

text \<open>
  Method 3: picture elements and srcset. \<open>srcset_urls\<close> is
  \<^verbatim>\<open>srcset.split(',').map(s => s.trim().split(' ')[0])\<close>; the first piece of a split
  always exists.
\<close>

definition srcset_urls :: "string \<Rightarrow> string list" where
  "srcset_urls srcset =
     map (\<lambda>s. case first_item (split_str (trim s) CHR '' '') of None \<Rightarrow> [] | Some u \<Rightarrow> u)
       (split_str srcset CHR '','')"

definition picture_element :: "srcset_element \<Rightarrow> nat \<Rightarrow> image option" where
  "picture_element el index =
     (let srcset = or_prop (el_srcset el) (el_src el) in
      if and_includes srcset ''http'' then
        (let urls = srcset_urls (the srcset);
             httpUrls = filter (\<lambda>url. startsWith url ''http'') urls
         in if length httpUrls > 0 then
              Some \<lparr>src = httpUrls ! (length httpUrls - 1),
                    alt = ''picture-'' @ string_of_nat index,
                    type = ''picture-element'',
                    element = None,
                    width = 0,
                    height = 0\<rparr>
            else None)
      else None)"

text \<open>Method 4: data attributes (lazy loading).\<close>

definition lazy_loading :: "lazy_element \<Rightarrow> nat \<Rightarrow> image option" where
  "lazy_loading el index =
     (let src = or_prop (or_prop (or_prop (or_prop (dataset_src el) (dataset_lazySrc el))
                                  (dataset_original el))
                         (dataset_image el))
                (dataset_bg el)
      in if and_startsWith src ''http'' then
           Some \<lparr>image.src = the src,
                 alt = ''lazy-'' @ string_of_nat index,
                 type = ''lazy-loading'',
                 element = None,
                 width = 0,
                 height = 0\<rparr>
         else None)"

subsection \<open>Removing duplicates and tiny images\<close>

text \<open>\<^verbatim>\<open>xs.findIndex(p)\<close>; \<open>None\<close> stands for the result -1.\<close>

fun findIndex :: "('a \<Rightarrow> bool) \<Rightarrow> 'a list \<Rightarrow> nat option" where
  "findIndex p [] = None"
| "findIndex p (x # xs) = (if p x then Some 0 else map_option Suc (findIndex p xs))"

text \<open>\<^verbatim>\<open>xs.filter((x, index, self) => ...)\<close>\<close>

definition filter_indexed :: "('a \<Rightarrow> nat \<Rightarrow> 'a list \<Rightarrow> bool) \<Rightarrow> 'a list \<Rightarrow> 'a list" where
  "filter_indexed f self = map snd (filter (\<lambda>(index, x). f x index self) (List.enumerate 0 self))"

definition isDuplicate :: "image \<Rightarrow> nat \<Rightarrow> image list \<Rightarrow> bool" where
  "isDuplicate img index self = (Some index \<noteq> findIndex (\<lambda>i. src i = src img) self)"

definition isTooSmall :: "image \<Rightarrow> bool" where
  "isTooSmall img = ((width img > 0 \<and> height img > 0) \<and> (width img < 50 \<or> height img < 50))"

definition uniqueImages :: "image list \<Rightarrow> image list" where
  "uniqueImages images =
     filter_indexed (\<lambda>img index self. \<not> isDuplicate img index self \<and> \<not> isTooSmall img) images"

subsection \<open>The script\<close>

text \<open>
  The callback of \<^verbatim>\<open>page.evaluate\<close> (lines 63 to 151): the four loops push onto one
  array in the order they are written, then the array is filtered.
\<close>

definition extraction_script :: "document \<Rightarrow> image list" where
  "extraction_script doc =
     (let images = [];
          images = images @ forEach_push img_tag (imgElements doc);
          images = images @ forEach_push background_image (allElements doc);
          images = images @ forEach_push picture_element (pictureElements doc);
          images = images @ forEach_push lazy_loading (lazyImages doc)
      in uniqueImages images)"

text \<open>
  The same script with its four loops in another order, to state what depends on the
  order: \<open>extract_in_order\<close> of the order of the source is \<open>extraction_script\<close>.
\<close>

datatype detection_method = ImgTag | BackgroundImage | PictureElement | LazyLoading

fun candidates :: "document \<Rightarrow> detection_method \<Rightarrow> image list" where
  "candidates doc ImgTag = forEach_push img_tag (imgElements doc)"
| "candidates doc BackgroundImage = forEach_push background_image (allElements doc)"
| "candidates doc PictureElement = forEach_push picture_element (pictureElements doc)"
| "candidates doc LazyLoading = forEach_push lazy_loading (lazyImages doc)"

definition extract_in_order :: "detection_method list \<Rightarrow> document \<Rightarrow> image list" where
  "extract_in_order ms doc = uniqueImages (concat (map (candidates doc) ms))"

definition source_order :: "detection_method list" where
  "source_order = [ImgTag, BackgroundImage, PictureElement, LazyLoading]"

section \<open>The server\<close>

subsection \<open>JSON values, requests and responses\<close>

text \<open>
  A request body as \<^verbatim>\<open>express.json()\<close> leaves it in \<^verbatim>\<open>req.body\<close>, and the bodies
  the handlers send with \<^verbatim>\<open>res.json\<close>. A number is the rational a finite double
  stands for.
\<close>

datatype json =
    JNull
  | JBool bool
  | JNum rat
  | JStr string
  | JArr "json list"
  | JObj "(string \<times> json) list"

text \<open>
  Reading a property, \<open>None\<close> for \<^verbatim>\<open>undefined\<close>: \<^verbatim>\<open>const { url } = req.body\<close> is
  \<open>get_prop body ''url''\<close>. Only an object has the properties its keys name; the keys
  of a parsed object are distinct. In its default strict mode \<^verbatim>\<open>express.json()\<close>
  accepts objects and arrays only.
\<close>

fun get_prop :: "json \<Rightarrow> string \<Rightarrow> json option" where
  "get_prop (JObj kvs) k = map_of kvs k"
| "get_prop _ k = None"

text \<open>
  Truthiness: \<^verbatim>\<open>undefined\<close>, \<^verbatim>\<open>null\<close>, \<^verbatim>\<open>false\<close>, 0 and the empty string are
  falsy, every other value is truthy.
\<close>

fun truthy :: "json option \<Rightarrow> bool" where
  "truthy None = False"
| "truthy (Some JNull) = False"
| "truthy (Some (JBool b)) = b"
| "truthy (Some (JNum n)) = (n \<noteq> 0)"
| "truthy (Some (JStr s)) = (s \<noteq> [])"
| "truthy (Some (JArr _)) = True"
| "truthy (Some (JObj _)) = True"

record response =
  status :: nat
  body :: json

text \<open>The image entries as \<^verbatim>\<open>res.json\<close> serialises them.\<close>

definition image_json :: "image \<Rightarrow> json" where
  "image_json img =
     JObj ([(''src'', JStr (src img)), (''alt'', JStr (alt img)), (''type'', JStr (type img))]
           @ (case element img of None \<Rightarrow> [] | Some t \<Rightarrow> [(''element'', JStr t)])
           @ [(''width'', JNum (of_nat (width img))), (''height'', JNum (of_nat (height img)))])"

subsection \<open>The browser as an environment\<close>

text \<open>
  Every call into the browser-automation library is an action; the fixed options of
  \<^verbatim>\<open>puppeteer.launch\<close> are not represented. The server keeps the
  module variable \<^verbatim>\<open>browser\<close> (\<open>None\<close> for \<^verbatim>\<open>null\<close>) and, for the statements below,
  the log of the actions it has performed, each with the message of the error it threw,
  if it threw. Console output is not modelled.
\<close>

datatype action =
    Launch
  | NewPage
  | SetUserAgent string
  | Goto json string nat
  | WaitForTimeout nat
  | EvaluateInnerHeight
  | EvaluateScrollTo nat nat
  | EvaluateExtraction
  | ClosePage

type_synonym event = "action \<times> string option"

datatype browser_handle = Browser

record server =
  browser :: "browser_handle option"
  events :: "event list"

text \<open>
  What the server does not decide: whether an action throws, and with which message,
  given everything done so far; the height of the viewport; the elements the page holds
  when the extraction script runs.
\<close>

record environment =
  failure :: "event list \<Rightarrow> action \<Rightarrow> string option"
  window_innerHeight :: "event list \<Rightarrow> nat"
  page_document :: "event list \<Rightarrow> document"

text \<open>
  An asynchronous computation: from the server's state to a thrown error's message or a
  value, and the state after it. \<open>bind_io\<close> is \<^verbatim>\<open>await\<close> followed by the rest of the
  block: an error skips the rest.
\<close>

type_synonym 'a io = "server \<Rightarrow> (string + 'a) \<times> server"

definition return_io :: "'a \<Rightarrow> 'a io" where
  "return_io x s = (Inr x, s)"

definition bind_io :: "'a io \<Rightarrow> ('a \<Rightarrow> 'b io) \<Rightarrow> 'b io" where
  "bind_io m f s =
     (case m s of
        (Inl e, s') \<Rightarrow> (Inl e, s')
      | (Inr x, s') \<Rightarrow> f x s')"

definition call :: "environment \<Rightarrow> action \<Rightarrow> unit io" where
  "call env a s =
     (case failure env (events s) a of
        Some m \<Rightarrow> (Inl m, s\<lparr>events := events s @ [(a, Some m)]\<rparr>)
      | None \<Rightarrow> (Inr (), s\<lparr>events := events s @ [(a, None)]\<rparr>))"

text \<open>\<^verbatim>\<open>page.evaluate(() => window.innerHeight)\<close>\<close>

definition evaluate_innerHeight :: "environment \<Rightarrow> nat io" where
  "evaluate_innerHeight env s =
     bind_io (call env EvaluateInnerHeight) (\<lambda>_. return_io (window_innerHeight env (events s))) s"

text \<open>\<^verbatim>\<open>page.evaluate\<close> of the extraction script, on the page as it is then.\<close>

definition evaluate_extraction :: "environment \<Rightarrow> image list io" where
  "evaluate_extraction env s =
     bind_io (call env EvaluateExtraction)
       (\<lambda>_. return_io (extraction_script (page_document env (events s)))) s"

subsection \<open>initBrowser\<close>

definition initBrowser :: "environment \<Rightarrow> browser_handle option io" where
  "initBrowser env =
     bind_io
       (\<lambda>s. if browser s = None then
              bind_io (call env Launch) (\<lambda>_ s'. (Inr (), s'\<lparr>browser := Some Browser\<rparr>)) s
            else return_io () s)
       (\<lambda>_ s. return_io (browser s) s)"

subsection \<open>scrollPageToLoadImages\<close>

definition scrollSteps :: nat where
  "scrollSteps = 5"

text \<open>
  The \<^verbatim>\<open>for\<close> loop from its counter \<open>i\<close> on: a scroll to \<open>i * viewportHeight\<close> and a
  pause of 1000 ms, while \<open>i < scrollSteps\<close>.
\<close>

function scroll_loop :: "environment \<Rightarrow> nat \<Rightarrow> nat \<Rightarrow> unit io" where
  "scroll_loop env viewportHeight i =
     (if i < scrollSteps then
        bind_io (call env (EvaluateScrollTo 0 (i * viewportHeight)))
          (\<lambda>_. bind_io (call env (WaitForTimeout 1000))
            (\<lambda>_. scroll_loop env viewportHeight (i + 1)))
      else return_io ())"
  by pat_completeness auto
termination
  by (relation "measure (\<lambda>(env, viewportHeight, i). scrollSteps - i)") auto

declare scroll_loop.simps [simp del]

definition scrollPageToLoadImages :: "environment \<Rightarrow> unit io" where
  "scrollPageToLoadImages env =
     bind_io (evaluate_innerHeight env)
       (\<lambda>viewportHeight. bind_io (scroll_loop env viewportHeight 0)
         (\<lambda>_. bind_io (call env (EvaluateScrollTo 0 0))
           (\<lambda>_. call env (WaitForTimeout 1000))))"

subsection \<open>POST /extract-images and GET /health\<close>

definition userAgent :: string where
  "userAgent = ''Mozilla/5.0 (Windows NT 10.0; Win64; x64) AppleWebKit/537.36 (KHTML, like Gecko) Chrome/91.0.4472.124 Safari/537.36''"

text \<open>The body of the \<^verbatim>\<open>try\<close> block up to \<^verbatim>\<open>page.close()\<close>; its value is \<^verbatim>\<open>imageData\<close>.\<close>

definition try_block :: "environment \<Rightarrow> json \<Rightarrow> image list io" where
  "try_block env url =
     bind_io (initBrowser env) (\<lambda>_.
     bind_io (call env NewPage) (\<lambda>_.
     bind_io (call env (SetUserAgent userAgent)) (\<lambda>_.
     bind_io (call env (Goto url ''networkidle2'' 30000)) (\<lambda>_.
     bind_io (call env (WaitForTimeout 3000)) (\<lambda>_.
     bind_io (scrollPageToLoadImages env) (\<lambda>_.
     bind_io (evaluate_extraction env) (\<lambda>imageData.
     bind_io (call env ClosePage) (\<lambda>_.
     return_io imageData))))))))"

definition url_required :: response where
  "url_required = \<lparr>status = 400, body = JObj [(''error'', JStr ''URL is required'')]\<rparr>"

definition extraction_failed :: "string \<Rightarrow> response" where
  "extraction_failed message =
     \<lparr>status = 500,
      body = JObj [(''error'', JStr ''Failed to extract images''), (''message'', JStr message)]\<rparr>"

definition extraction_succeeded :: "image list \<Rightarrow> json \<Rightarrow> response" where
  "extraction_succeeded imageData url =
     \<lparr>status = 200,
      body = JObj [(''success'', JBool True),
                   (''images'', JArr (map image_json imageData)),
                   (''count'', JNum (of_nat (length imageData))),
                   (''url'', url)]\<rparr>"

definition post_extract_images :: "environment \<Rightarrow> json \<Rightarrow> server \<Rightarrow> response \<times> server" where
  "post_extract_images env req_body s =
     (let url = get_prop req_body ''url'' in
      if \<not> truthy url then (url_required, s)
      else
        (case try_block env (the url) s of
           (Inr imageData, s') \<Rightarrow> (extraction_succeeded imageData (the url), s')
         | (Inl message, s') \<Rightarrow> (extraction_failed message, s')))"

definition get_health :: "server \<Rightarrow> response \<times> server" where
  "get_health s =
     (\<lparr>status = 200,
       body = JObj [(''status'', JStr ''OK''), (''browser'', JBool (browser s \<noteq> None))]\<rparr>, s)"

text \<open>
  The process: it starts with \<^verbatim>\<open>browser = null\<close> and serves its requests one after
  the other.
\<close>

datatype request = PostExtractImages json | GetHealth

definition server_start :: server where
  "server_start = \<lparr>browser = None, events = []\<rparr>"

fun handle :: "environment \<Rightarrow> request \<Rightarrow> server \<Rightarrow> response \<times> server" where
  "handle env (PostExtractImages req_body) s = post_extract_images env req_body s"
| "handle env GetHealth s = get_health s"

fun serve :: "environment \<Rightarrow> request list \<Rightarrow> server \<Rightarrow> response list \<times> server" where
  "serve env [] s = ([], s)"
| "serve env (r # rs) s =
     (case handle env r s of
        (resp, s') \<Rightarrow> (case serve env rs s' of (resps, s'') \<Rightarrow> (resp # resps, s'')))"

section \<open>Auxiliary definitions and example pages\<close>

text \<open>
  The filter of \<open>uniqueImages\<close> as a single pass that remembers the source URLs it
  has met: a candidate is kept when its source URL is new and it is not too small; its
  source URL counts as met either way.
\<close>

fun keep_first :: "string set \<Rightarrow> image list \<Rightarrow> image list" where
  "keep_first seen [] = []"
| "keep_first seen (x # xs) =
     (if src x \<notin> seen \<and> \<not> isTooSmall x then [x] else []) @ keep_first (insert (src x) seen) xs"

text \<open>A necessary condition for a string to be an absolute HTTP(S) URL: its scheme.\<close>

definition has_http_scheme :: "string \<Rightarrow> bool" where
  "has_http_scheme s = (startsWith s ''http://'' \<or> startsWith s ''https://'')"

text \<open>
  Example pages. \<open>doc_tiny_dup\<close> is the page
  \<^verbatim>\<open><html><head></head><body><img src="http://a/x.png" data-src="http://a/x.png"></body></html>\<close>
  whose image is 10 by 10 pixels, \<open>doc_dup\<close> the same page with an image of 100 by
  100 pixels, and \<open>doc_scheme\<close> the page
  \<^verbatim>\<open><html><head></head><body><div data-src="httpfoo://a/x.png"></div></body></html>\<close>.
  No element of them has a background image.
\<close>

definition tiny_img :: img_element where
  "tiny_img = \<lparr>img_src = ''http://a/x.png'', img_alt = [], naturalWidth = 10, img_width = 10,
               naturalHeight = 10, img_height = 10\<rparr>"

definition large_img :: img_element where
  "large_img = \<lparr>img_src = ''http://a/x.png'', img_alt = [], naturalWidth = 100, img_width = 100,
                naturalHeight = 100, img_height = 100\<rparr>"

definition lazy_same :: lazy_element where
  "lazy_same = \<lparr>dataset_src = Some ''http://a/x.png'', dataset_lazySrc = None,
                dataset_original = None, dataset_image = None, dataset_bg = None\<rparr>"

definition lazy_scheme :: lazy_element where
  "lazy_scheme = \<lparr>dataset_src = Some ''httpfoo://a/x.png'', dataset_lazySrc = None,
                  dataset_original = None, dataset_image = None, dataset_bg = None\<rparr>"

definition plain :: "string \<Rightarrow> styled_element" where
  "plain tag = \<lparr>backgroundImage = Some ''none'', tagName = tag\<rparr>"

definition doc_tiny_dup :: document where
  "doc_tiny_dup = \<lparr>imgElements = [tiny_img],
                   allElements = [plain ''HTML'', plain ''HEAD'', plain ''BODY'', plain ''IMG''],
                   pictureElements = [],
                   lazyImages = [lazy_same]\<rparr>"

definition doc_dup :: document where
  "doc_dup = \<lparr>imgElements = [large_img],
              allElements = [plain ''HTML'', plain ''HEAD'', plain ''BODY'', plain ''IMG''],
              pictureElements = [],
              lazyImages = [lazy_same]\<rparr>"

definition doc_scheme :: document where
  "doc_scheme = \<lparr>imgElements = [],
                 allElements = [plain ''HTML'', plain ''HEAD'', plain ''BODY'', plain ''DIV''],
                 pictureElements = [],
                 lazyImages = [lazy_scheme]\<rparr>"

text \<open>Candidates with both dimensions known, and with the width only.\<close>

definition tiny_candidate :: image where
  "tiny_candidate = \<lparr>src = ''http://a/x.png'', alt = ''image-0'', type = ''img-tag'',
                     element = None, width = 10, height = 10\<rparr>"

definition half_known_candidate :: image where
  "half_known_candidate = \<lparr>src = ''http://a/y.png'', alt = ''image-1'', type = ''img-tag'',
                           element = None, width = 10, height = 0\<rparr>"

text \<open>
  The actions of a run of \<open>scrollPageToLoadImages\<close> in which nothing throws, written
  from the description of the routine: the viewport height is read, then five times a
  scroll to the next multiple of it and a pause of one second, then a scroll to the top
  and a last pause.
\<close>

definition scroll_schedule :: "nat \<Rightarrow> action list" where
  "scroll_schedule viewportHeight =
     EvaluateInnerHeight
     # concat (map (\<lambda>k. [EvaluateScrollTo 0 (k * viewportHeight), WaitForTimeout 1000]) [0, 1, 2, 3, 4])
     @ [EvaluateScrollTo 0 0, WaitForTimeout 1000]"

text \<open>An action that did not throw, as an event of the log.\<close>

definition succeeded :: "action \<Rightarrow> event" where
  "succeeded a = (a, None)"

text \<open>
  Performing a list of actions in the order of the list, up to and including the first
  that throws.
\<close>

fun perform :: "environment \<Rightarrow> action list \<Rightarrow> unit io" where
  "perform env [] = return_io ()"
| "perform env (a # as) = bind_io (call env a) (\<lambda>_. perform env as)"


text \<open>
  How a computation may change the server's state: it appends to the log the actions it
  performed, of which only the last can have thrown, and then its result is that error's
  message; and \<^verbatim>\<open>browser\<close> is set afterwards exactly when it was set before or a launch
  succeeded meanwhile.
\<close>

definition outcome_of :: "(string + 'a) \<Rightarrow> event list \<Rightarrow> bool" where
  "outcome_of r evs =
     (case r of
        Inl m \<Rightarrow> evs \<noteq> [] \<and> snd (last evs) = Some m \<and> list_all (\<lambda>e. snd e = None) (butlast evs)
      | Inr x \<Rightarrow> list_all (\<lambda>e. snd e = None) evs)"

definition steady :: "'a io \<Rightarrow> bool" where
  "steady m =
     (\<forall>s. \<exists>evs. events (snd (m s)) = events s @ evs \<and> outcome_of (fst (m s)) evs
        \<and> (browser (snd (m s)) \<noteq> None) = (browser s \<noteq> None \<or> (Launch, None) \<in> set evs))"

text \<open>
  Example environments: one in which no action throws and the page is \<open>doc_dup\<close>;
  one in which navigation throws; one in which the launch throws; one in which no action
  throws and the page is \<open>doc_scheme\<close>; one in which only closing the page throws. And
  a request body.
\<close>

definition calm_env :: environment where
  "calm_env = \<lparr>failure = (\<lambda>evs a. None), window_innerHeight = (\<lambda>evs. 800),
               page_document = (\<lambda>evs. doc_dup)\<rparr>"

definition unreachable_env :: environment where
  "unreachable_env =
     \<lparr>failure = (\<lambda>evs a. case a of
                    Goto url waitUntil timeout \<Rightarrow> Some ''net::ERR_NAME_NOT_RESOLVED''
                  | _ \<Rightarrow> None),
      window_innerHeight = (\<lambda>evs. 800),
      page_document = (\<lambda>evs. doc_dup)\<rparr>"

definition launch_fails_env :: environment where
  "launch_fails_env =
     \<lparr>failure = (\<lambda>evs a. case a of Launch \<Rightarrow> Some ''Failed to launch the browser process'' | _ \<Rightarrow> None),
      window_innerHeight = (\<lambda>evs. 800),
      page_document = (\<lambda>evs. doc_dup)\<rparr>"

definition close_fails_env :: environment where
  "close_fails_env =
     \<lparr>failure = (\<lambda>evs a. case a of ClosePage \<Rightarrow> Some ''Protocol error: Target closed'' | _ \<Rightarrow> None),
      window_innerHeight = (\<lambda>evs. 800),
      page_document = (\<lambda>evs. doc_dup)\<rparr>"

definition scheme_env :: environment where
  "scheme_env = \<lparr>failure = (\<lambda>evs a. None), window_innerHeight = (\<lambda>evs. 800),
                 page_document = (\<lambda>evs. doc_scheme)\<rparr>"

definition example_body :: json where
  "example_body = JObj [(''url'', JStr ''http://example.com/'')]"

text \<open>What \<^verbatim>\<open>GET /health\<close> reports about the browser in a state of the server.\<close>

definition reports_browser :: "server \<Rightarrow> bool \<Rightarrow> bool" where
  "reports_browser s b = (get_prop (body (fst (get_health s))) ''browser'' = Some (JBool b))"

section \<open>The filter of the extraction script\<close>

lemma findIndex_append:
  "(findIndex p (pre @ x # xs) = Some (length pre)) = (p x \<and> (\<forall>y \<in> set pre. \<not> p y))"
  by (induction pre) auto

lemma isDuplicate_append:
  "isDuplicate x (length pre) (pre @ x # xs) = (src x \<in> src ` set pre)"
proof -
  have "(Some (length pre) = findIndex (\<lambda>i. src i = src x) (pre @ x # xs))
        = (\<forall>y \<in> set pre. src y \<noteq> src x)"
    using findIndex_append [of "\<lambda>i. src i = src x" pre x xs] by auto
  moreover have "(src x \<in> src ` set pre) = (\<exists>y \<in> set pre. src y = src x)"
    by (metis (no_types) imageE imageI)
  ultimately show ?thesis
    unfolding isDuplicate_def by blast
qed

lemma filter_from:
  "map snd (filter (\<lambda>(index, img). \<not> isDuplicate img index (pre @ xs) \<and> \<not> isTooSmall img)
       (List.enumerate (length pre) xs)) = keep_first (src ` set pre) xs"
proof (induction xs arbitrary: pre)
  case Nil
  then show ?case by simp
next
  case (Cons x xs)
  have "map snd (filter (\<lambda>(index, img). \<not> isDuplicate img index ((pre @ [x]) @ xs) \<and> \<not> isTooSmall img)
       (List.enumerate (length (pre @ [x])) xs)) = keep_first (src ` set (pre @ [x])) xs"
    by (rule Cons.IH)
  then show ?case
    by (simp add: isDuplicate_append)
qed

lemma uniqueImages_keep_first: "uniqueImages xs = keep_first {} xs"
  using filter_from [of "[]" xs] by (simp add: uniqueImages_def filter_indexed_def)

lemma keep_first_set:
  "x \<in> set (keep_first seen xs) \<Longrightarrow> x \<in> set xs \<and> \<not> isTooSmall x \<and> src x \<notin> seen"
  by (induction xs arbitrary: seen) (auto split: if_splits)

lemma keep_first_count:
  "length (filter (\<lambda>i. src i = u) (keep_first seen xs)) =
     (if u \<in> seen then 0
      else case find (\<lambda>i. src i = u) xs of
             None \<Rightarrow> 0
           | Some c \<Rightarrow> if isTooSmall c then 0 else 1)"
proof (induction xs arbitrary: seen)
  case Nil
  then show ?case by simp
next
  case (Cons x xs)
  show ?case
    by (simp add: Cons.IH)
qed


lemma extraction_script_in_order:
  "extraction_script doc = extract_in_order source_order doc"
  by (simp add: extraction_script_def extract_in_order_def source_order_def)

lemmas script_defs =
  extraction_script_def extract_in_order_def source_order_def forEach_push_def
  List.map_filter_def List.enumerate_eq_zip img_tag_def background_image_def
  picture_element_def lazy_loading_def startsWith_def uniqueImages_def filter_indexed_def
  isDuplicate_def isTooSmall_def or_num_def or_str_def or_prop_def truthy_str_def
  and_startsWith_def and_includes_def

text \<open>
  C1. A candidate whose width and height are both known (both positive) and of which
  one is under 50 pixels is not in the array that \<open>uniqueImages\<close> returns, whatever the
  list of candidates. With only one dimension known the filter does not apply: in the
  example below the candidate of width 10 and height 0 stays, the one of 10 by 10 goes.
\<close>

theorem known_tiny_candidate_excluded:
  "0 < width c \<Longrightarrow> 0 < height c \<Longrightarrow> width c < 50 \<or> height c < 50
     \<Longrightarrow> c \<notin> set (uniqueImages images)"
proof
  assume known: "0 < width c" "0 < height c" and under: "width c < 50 \<or> height c < 50"
  assume "c \<in> set (uniqueImages images)"
  then have "\<not> isTooSmall c"
    using keep_first_set [of c "{}" images] by (simp add: uniqueImages_keep_first)
  with known under show False
    by (simp add: isTooSmall_def)
qed

theorem known_tiny_candidate_excluded_witness:
  "0 < width tiny_candidate \<and> 0 < height tiny_candidate
   \<and> (width tiny_candidate < 50 \<or> height tiny_candidate < 50)
   \<and> tiny_candidate \<notin> set (uniqueImages [half_known_candidate, tiny_candidate])
   \<and> uniqueImages [half_known_candidate, tiny_candidate] = [half_known_candidate]"
proof -
  have kept: "uniqueImages [half_known_candidate, tiny_candidate] = [half_known_candidate]"
    by (simp add: tiny_candidate_def half_known_candidate_def script_defs)
  have known: "0 < width tiny_candidate" "0 < height tiny_candidate"
    and under: "width tiny_candidate < 50 \<or> height tiny_candidate < 50"
    by (simp_all add: tiny_candidate_def)
  from known under kept
    known_tiny_candidate_excluded [OF known under, of "[half_known_candidate, tiny_candidate]"]
  show ?thesis
    by (intro conjI)
qed

section \<open>What the four methods push\<close>

lemma forEach_push_set:
  "c \<in> set (forEach_push f xs) \<Longrightarrow> \<exists>x index. f x index = Some c"
proof -
  assume "c \<in> set (forEach_push f xs)"
  then obtain index x where "f x index = Some c"
    by (auto simp: forEach_push_def List.map_filter_def)
  then show ?thesis by blast
qed

lemma img_tag_http: "img_tag x index = Some c \<Longrightarrow> startsWith (src c) ''http''"
  by (auto simp: img_tag_def split: if_splits)

lemma background_image_http: "background_image x index = Some c \<Longrightarrow> startsWith (src c) ''http''"
  by (auto simp: background_image_def Let_def and_startsWith_def split: if_splits option.splits)

lemma picture_element_http: "picture_element x index = Some c \<Longrightarrow> startsWith (src c) ''http''"
proof -
  assume a: "picture_element x index = Some c"
  define httpUrls where
    "httpUrls = filter (\<lambda>url. startsWith url ''http'')
       (srcset_urls (the (or_prop (el_srcset x) (el_src x))))"
  from a have pos: "0 < length httpUrls" and c: "src c = httpUrls ! (length httpUrls - 1)"
    by (auto simp: picture_element_def Let_def httpUrls_def split: if_splits)
  from pos have "httpUrls ! (length httpUrls - 1) \<in> set httpUrls"
    by simp
  then have "startsWith (httpUrls ! (length httpUrls - 1)) ''http''"
    unfolding httpUrls_def by simp
  with c show ?thesis by simp
qed

lemma lazy_loading_http: "lazy_loading x index = Some c \<Longrightarrow> startsWith (src c) ''http''"
  by (auto simp: lazy_loading_def Let_def and_startsWith_def split: if_splits option.splits)

lemma candidates_http: "c \<in> set (candidates doc m) \<Longrightarrow> startsWith (src c) ''http''"
proof (cases m)
  case ImgTag
  assume "c \<in> set (candidates doc m)"
  with ImgTag show ?thesis
    by (auto dest!: forEach_push_set img_tag_http)
next
  case BackgroundImage
  assume "c \<in> set (candidates doc m)"
  with BackgroundImage show ?thesis
    by (auto dest!: forEach_push_set background_image_http)
next
  case PictureElement
  assume "c \<in> set (candidates doc m)"
  with PictureElement show ?thesis
    by (auto dest!: forEach_push_set picture_element_http)
next
  case LazyLoading
  assume "c \<in> set (candidates doc m)"
  with LazyLoading show ?thesis
    by (auto dest!: forEach_push_set lazy_loading_http)
qed





lemma uniqueImages_subset: "c \<in> set (uniqueImages xs) \<Longrightarrow> c \<in> set xs"
  using keep_first_set [of c "{}" xs] by (simp add: uniqueImages_keep_first)


text \<open>
  C2, as amended. For every page and every source URL, the returned array holds no entry
  with that source URL when no method produced a candidate with it or when the first
  candidate with it, in the order the methods push, is too small; otherwise it holds
  exactly one.
\<close>

theorem one_entry_per_source_unless_first_is_tiny:
  "length (filter (\<lambda>i. src i = u) (extraction_script doc)) =
     (case find (\<lambda>i. src i = u) (concat (map (candidates doc) source_order)) of
        None \<Rightarrow> 0
      | Some c \<Rightarrow> if isTooSmall c then 0 else 1)"
  using keep_first_count [of u "{}" "concat (map (candidates doc) source_order)"]
  by (simp add: extraction_script_in_order extract_in_order_def uniqueImages_keep_first)

theorem one_entry_per_source_witness:
  "map src (candidates doc_dup ImgTag) = [''http://a/x.png'']
   \<and> map src (candidates doc_dup LazyLoading) = [''http://a/x.png'']
   \<and> length (filter (\<lambda>i. src i = ''http://a/x.png'') (extraction_script doc_dup)) = 1"
  using one_entry_per_source_unless_first_is_tiny [of "''http://a/x.png''" doc_dup]
  by (simp add: doc_dup_def large_img_def lazy_same_def plain_def script_defs)

text \<open>
  The claim as stated fails: an image of 10 by 10 pixels and a \<^verbatim>\<open>data-src\<close> attribute
  with the same URL give two candidates, and the returned array is empty.
\<close>

theorem duplicate_of_tiny_image_counterexample:
  "map src (candidates doc_tiny_dup ImgTag) = [''http://a/x.png'']
   \<and> map src (candidates doc_tiny_dup LazyLoading) = [''http://a/x.png'']
   \<and> extraction_script doc_tiny_dup = []"
  by (simp add: doc_tiny_dup_def tiny_img_def lazy_same_def plain_def script_defs)




lemma extraction_script_http:
  "c \<in> set (extraction_script doc) \<Longrightarrow> startsWith (src c) ''http''"
proof -
  assume "c \<in> set (extraction_script doc)"
  then have "c \<in> set (concat (map (candidates doc) source_order))"
    by (simp only: extraction_script_in_order extract_in_order_def uniqueImages_subset)
  then obtain m where "c \<in> set (candidates doc m)"
    by auto
  then show ?thesis by (rule candidates_http)
qed

section \<open>The server's computations\<close>

lemma steady_return: "steady (return_io x)"
  by (simp add: steady_def return_io_def outcome_of_def)

lemma steady_call: "a \<noteq> Launch \<Longrightarrow> steady (call env a)"
  by (auto simp: steady_def call_def outcome_of_def split: option.splits)

lemma outcome_of_append:
  assumes "list_all (\<lambda>e. snd e = None) evs1" and "outcome_of r evs2"
  shows "outcome_of r (evs1 @ evs2)"
proof (cases r)
  case (Inl m)
  with assms(2) have ne: "evs2 \<noteq> []" and l: "snd (last evs2) = Some m"
    and b: "list_all (\<lambda>e. snd e = None) (butlast evs2)"
    by (simp_all add: outcome_of_def)
  from ne have "butlast (evs1 @ evs2) = evs1 @ butlast evs2"
    by (simp add: butlast_append)
  with ne l b assms(1) Inl show ?thesis
    by (simp add: outcome_of_def)
next
  case (Inr x)
  with assms show ?thesis
    by (simp add: outcome_of_def)
qed

lemma steady_bind:
  fixes m :: "'a io" and f :: "'a \<Rightarrow> 'b io"
  assumes m: "steady m" and f: "\<And>x. steady (f x)"
  shows "steady (bind_io m f)"
  unfolding steady_def
proof
  fix s
  obtain r s' where ms: "m s = (r, s')"
    by (cases "m s")
  from m ms obtain evs1 where e1: "events s' = events s @ evs1" and o1: "outcome_of r evs1"
    and b1: "(browser s' \<noteq> None) = (browser s \<noteq> None \<or> (Launch, None) \<in> set evs1)"
    unfolding steady_def by (metis fst_conv snd_conv)
  show "\<exists>evs. events (snd (bind_io m f s)) = events s @ evs
          \<and> outcome_of (fst (bind_io m f s)) evs
          \<and> (browser (snd (bind_io m f s)) \<noteq> None) = (browser s \<noteq> None \<or> (Launch, None) \<in> set evs)"
  proof (cases r)
    case (Inl e)
    with ms have "bind_io m f s = (Inl e, s')"
      by (simp add: bind_io_def)
    moreover from o1 Inl have "outcome_of (Inl e :: string + 'b) evs1"
      by (simp add: outcome_of_def)
    ultimately show ?thesis
      using e1 b1 by auto
  next
    case (Inr x)
    with ms have eq: "bind_io m f s = f x s'"
      by (simp add: bind_io_def)
    from f [of x] obtain evs2 where e2: "events (snd (f x s')) = events s' @ evs2"
      and o2: "outcome_of (fst (f x s')) evs2"
      and b2: "(browser (snd (f x s')) \<noteq> None) = (browser s' \<noteq> None \<or> (Launch, None) \<in> set evs2)"
      unfolding steady_def by blast
    from o1 Inr have ok1: "list_all (\<lambda>e. snd e = None) evs1"
      by (simp add: outcome_of_def)
    have "outcome_of (fst (f x s')) (evs1 @ evs2)"
      using ok1 o2 by (rule outcome_of_append)
    moreover have "events (snd (f x s')) = events s @ (evs1 @ evs2)"
      using e1 e2 by simp
    moreover have "(browser (snd (f x s')) \<noteq> None)
        = (browser s \<noteq> None \<or> (Launch, None) \<in> set (evs1 @ evs2))"
      using b1 b2 by auto
    ultimately show ?thesis
      unfolding eq by blast
  qed
qed

lemma steady_reading: "(\<And>s. steady (g s)) \<Longrightarrow> steady (\<lambda>s. g s s)"
  by (simp add: steady_def)

lemma steady_initBrowser: "steady (initBrowser env)"
  unfolding steady_def
proof
  fix s
  show "\<exists>evs. events (snd (initBrowser env s)) = events s @ evs
          \<and> outcome_of (fst (initBrowser env s)) evs
          \<and> (browser (snd (initBrowser env s)) \<noteq> None) = (browser s \<noteq> None \<or> (Launch, None) \<in> set evs)"
  proof (cases "browser s")
    case (Some b)
    then have "initBrowser env s = (Inr (Some b), s)"
      by (simp add: initBrowser_def bind_io_def return_io_def)
    with Some show ?thesis
      by (simp add: outcome_of_def)
  next
    case None
    show ?thesis
    proof (cases "failure env (events s) Launch")
      case (Some m)
      with None have "initBrowser env s = (Inl m, s\<lparr>events := events s @ [(Launch, Some m)]\<rparr>)"
        by (simp add: initBrowser_def bind_io_def return_io_def call_def)
      with None show ?thesis
        by (simp add: outcome_of_def)
    next
      case ok: None
      with None have "initBrowser env s =
          (Inr (Some Browser), s\<lparr>events := events s @ [(Launch, None)], browser := Some Browser\<rparr>)"
        by (simp add: initBrowser_def bind_io_def return_io_def call_def)
      then show ?thesis
        by (simp add: outcome_of_def)
    qed
  qed
qed

lemma steady_scroll_loop: "steady (scroll_loop env viewportHeight i)"
proof (induction env viewportHeight i rule: scroll_loop.induct)
  case (1 env viewportHeight i)
  show ?case
  proof (cases "i < scrollSteps")
    case True
    have "steady (bind_io (call env (EvaluateScrollTo 0 (i * viewportHeight)))
            (\<lambda>_. bind_io (call env (WaitForTimeout 1000))
              (\<lambda>_. scroll_loop env viewportHeight (i + 1))))"
      by (intro steady_bind steady_call "1.IH" True) simp_all
    with True show ?thesis
      by (subst scroll_loop.simps) simp
  next
    case False
    then show ?thesis
      by (subst scroll_loop.simps) (simp add: steady_return)
  qed
qed

lemma steady_evaluate_innerHeight: "steady (evaluate_innerHeight env)"
proof -
  have "steady (\<lambda>s. bind_io (call env EvaluateInnerHeight)
          (\<lambda>_. return_io (window_innerHeight env (events s))) s)"
    by (rule steady_reading) (intro steady_bind steady_call steady_return, simp)
  then show ?thesis
    by (simp add: evaluate_innerHeight_def [abs_def])
qed

lemma steady_evaluate_extraction: "steady (evaluate_extraction env)"
proof -
  have "steady (\<lambda>s. bind_io (call env EvaluateExtraction)
          (\<lambda>_. return_io (extraction_script (page_document env (events s)))) s)"
    by (rule steady_reading) (intro steady_bind steady_call steady_return, simp)
  then show ?thesis
    by (simp add: evaluate_extraction_def [abs_def])
qed

lemma steady_scrollPageToLoadImages: "steady (scrollPageToLoadImages env)"
  unfolding scrollPageToLoadImages_def
  by (intro steady_bind steady_evaluate_innerHeight steady_scroll_loop steady_call) simp_all

lemma steady_try_block: "steady (try_block env url)"
  unfolding try_block_def
  by (intro steady_bind steady_initBrowser steady_call steady_scrollPageToLoadImages
      steady_evaluate_extraction steady_return) simp_all

lemmas io_defs =
  bind_io_def return_io_def call_def evaluate_innerHeight_def evaluate_extraction_def
  initBrowser_def scrollPageToLoadImages_def try_block_def post_extract_images_def
  scroll_loop.simps scrollSteps_def

lemma steady_post_extract_images:
  "\<exists>evs. events (snd (post_extract_images env req_body s)) = events s @ evs
     \<and> (browser (snd (post_extract_images env req_body s)) \<noteq> None)
         = (browser s \<noteq> None \<or> (Launch, None) \<in> set evs)"
proof (cases "truthy (get_prop req_body ''url'')")
  case False
  then show ?thesis
    by (simp add: post_extract_images_def)
next
  case True
  obtain r s' where t: "try_block env (the (get_prop req_body ''url'')) s = (r, s')"
    by (cases "try_block env (the (get_prop req_body ''url'')) s")
  with True have "snd (post_extract_images env req_body s) = s'"
    by (simp add: post_extract_images_def split: sum.splits)
  moreover from steady_try_block [of env "the (get_prop req_body ''url'')"] t
  obtain evs where "events s' = events s @ evs"
    and "(browser s' \<noteq> None) = (browser s \<noteq> None \<or> (Launch, None) \<in> set evs)"
    unfolding steady_def by (metis snd_conv)
  ultimately show ?thesis
    by auto
qed

lemma steady_handle:
  "\<exists>evs. events (snd (handle env r s)) = events s @ evs
     \<and> (browser (snd (handle env r s)) \<noteq> None) = (browser s \<noteq> None \<or> (Launch, None) \<in> set evs)"
proof (cases r)
  case (PostExtractImages req_body)
  then show ?thesis
    using steady_post_extract_images [of env req_body s] by simp
next
  case GetHealth
  then show ?thesis
    by (simp add: get_health_def)
qed

lemma steady_serve:
  "\<exists>evs. events (snd (serve env rs s)) = events s @ evs
     \<and> (browser (snd (serve env rs s)) \<noteq> None) = (browser s \<noteq> None \<or> (Launch, None) \<in> set evs)"
proof (induction rs arbitrary: s)
  case Nil
  then show ?case by simp
next
  case (Cons r rs)
  obtain resp s' where h: "handle env r s = (resp, s')"
    by (cases "handle env r s")
  from steady_handle [of env r s] h obtain evs1 where e1: "events s' = events s @ evs1"
    and b1: "(browser s' \<noteq> None) = (browser s \<noteq> None \<or> (Launch, None) \<in> set evs1)"
    by auto
  from Cons.IH [of s'] obtain evs2 where e2: "events (snd (serve env rs s')) = events s' @ evs2"
    and b2: "(browser (snd (serve env rs s')) \<noteq> None)
              = (browser s' \<noteq> None \<or> (Launch, None) \<in> set evs2)"
    by blast
  have s: "snd (serve env (r # rs) s) = snd (serve env rs s')"
    using h by (simp split: prod.splits)
  have "events (snd (serve env (r # rs) s)) = events s @ (evs1 @ evs2)"
    using e1 e2 s by simp
  moreover have "(browser (snd (serve env (r # rs) s)) \<noteq> None)
      = (browser s \<noteq> None \<or> (Launch, None) \<in> set (evs1 @ evs2))"
    using b1 b2 s by auto
  ultimately show ?case
    by blast
qed

lemma reports_browser_iff: "reports_browser s b = ((browser s \<noteq> None) = b)"
  by (auto simp: reports_browser_def get_health_def)

section \<open>The handlers\<close>

text \<open>
  C5. When a browser action performed for a request to \<^verbatim>\<open>POST /extract-images\<close> throws
  an error with message \<open>m\<close>, the response has status 500 and its body is the object
  with the fixed \<^verbatim>\<open>error\<close> text and with \<open>m\<close>, unchanged, as \<^verbatim>\<open>message\<close>.
\<close>

theorem failure_message_passed_through:
  assumes post: "post_extract_images env req_body s = (resp, s')"
    and thrown: "(a, Some m) \<in> set (drop (length (events s)) (events s'))"
  shows "resp = \<lparr>status = 500,
                  body = JObj [(''error'', JStr ''Failed to extract images''), (''message'', JStr m)]\<rparr>"
proof (cases "truthy (get_prop req_body ''url'')")
  case False
  with post have "s' = s"
    by (simp add: post_extract_images_def)
  with thrown show ?thesis
    by simp
next
  case True
  obtain r s1 where t: "try_block env (the (get_prop req_body ''url'')) s = (r, s1)"
    by (cases "try_block env (the (get_prop req_body ''url'')) s")
  from steady_try_block [of env "the (get_prop req_body ''url'')"] t
  obtain evs where e: "events s1 = events s @ evs" and o: "outcome_of r evs"
    unfolding steady_def by (metis fst_conv snd_conv)
  from True post t have s1: "s1 = s'"
    by (cases r) (simp_all add: post_extract_images_def)
  with e thrown have mem: "(a, Some m) \<in> set evs"
    by simp
  show ?thesis
  proof (cases r)
    case (Inr imageData)
    with o have "list_all (\<lambda>e. snd e = None) evs"
      by (simp add: outcome_of_def)
    with mem have "snd (a, Some m) = None"
      unfolding list_all_iff by blast
    then show ?thesis
      by simp
  next
    case (Inl m')
    with o have ne: "evs \<noteq> []" and l: "snd (last evs) = Some m'"
      and b: "list_all (\<lambda>e. snd e = None) (butlast evs)"
      by (simp_all add: outcome_of_def)
    from ne mem have "(a, Some m) \<in> set (butlast evs) \<or> (a, Some m) = last evs"
      by (cases evs rule: rev_cases) auto
    moreover have "(a, Some m) \<notin> set (butlast evs)"
    proof
      assume "(a, Some m) \<in> set (butlast evs)"
      with b have "snd (a, Some m) = None"
        unfolding list_all_iff by blast
      then show False
        by simp
    qed
    ultimately have "last evs = (a, Some m)"
      by simp
    with l have "m' = m"
      by simp
    with True post t Inl show ?thesis
      by (simp add: post_extract_images_def extraction_failed_def)
  qed
qed

theorem failure_message_witness:
  "(Goto (JStr ''http://example.com/'') ''networkidle2'' 30000, Some ''net::ERR_NAME_NOT_RESOLVED'')
     \<in> set (drop (length (events server_start))
          (events (snd (post_extract_images unreachable_env example_body server_start))))
   \<and> fst (post_extract_images unreachable_env example_body server_start) =
       \<lparr>status = 500,
        body = JObj [(''error'', JStr ''Failed to extract images''),
                     (''message'', JStr ''net::ERR_NAME_NOT_RESOLVED'')]\<rparr>"
proof -
  have t: "(Goto (JStr ''http://example.com/'') ''networkidle2'' 30000, Some ''net::ERR_NAME_NOT_RESOLVED'')
     \<in> set (drop (length (events server_start))
          (events (snd (post_extract_images unreachable_env example_body server_start))))"
    by (simp add: io_defs unreachable_env_def example_body_def server_start_def)
  have p: "post_extract_images unreachable_env example_body server_start =
      (fst (post_extract_images unreachable_env example_body server_start),
       snd (post_extract_images unreachable_env example_body server_start))"
    by simp
  from t failure_message_passed_through [OF p t] show ?thesis
    by simp
qed

text \<open>
  C7. A request body without a \<^verbatim>\<open>url\<close> field is answered with status 400 and the body
  \<^verbatim>\<open>{ error: 'URL is required' }\<close>, and the server's state is the one before the
  request: \<^verbatim>\<open>browser\<close> is untouched and no action (no launch, no new page) is performed.
\<close>

theorem missing_url_rejected:
  "get_prop req_body ''url'' = None \<Longrightarrow>
     post_extract_images env req_body s =
       (\<lparr>status = 400, body = JObj [(''error'', JStr ''URL is required'')]\<rparr>, s)"
  by (simp add: post_extract_images_def url_required_def)

theorem missing_url_rejected_witness:
  "get_prop (JObj [(''link'', JStr ''http://example.com/'')]) ''url'' = None
   \<and> post_extract_images calm_env (JObj [(''link'', JStr ''http://example.com/'')]) server_start =
       (\<lparr>status = 400, body = JObj [(''error'', JStr ''URL is required'')]\<rparr>, server_start)"
proof -
  have n: "get_prop (JObj [(''link'', JStr ''http://example.com/'')]) ''url'' = None"
    by simp
  from n missing_url_rejected [OF n, of calm_env server_start] show ?thesis
    by simp
qed

text \<open>
  C10. A \<^verbatim>\<open>url\<close> field that holds the empty string, \<^verbatim>\<open>null\<close>, \<^verbatim>\<open>false\<close> or 0 is
  answered as a missing one: the same response, status 400, and the same unchanged state.
\<close>

theorem falsy_url_rejected_like_missing:
  assumes "get_prop req_body ''url'' = Some v"
    and "v = JStr [] \<or> v = JNull \<or> v = JBool False \<or> v = JNum 0"
  shows "post_extract_images env req_body s = post_extract_images env (JObj []) s
         \<and> post_extract_images env req_body s =
             (\<lparr>status = 400, body = JObj [(''error'', JStr ''URL is required'')]\<rparr>, s)"
  using assms by (auto simp: post_extract_images_def url_required_def)

theorem falsy_url_rejected_witness:
  "post_extract_images calm_env (JObj [(''url'', JStr [])]) server_start =
     (\<lparr>status = 400, body = JObj [(''error'', JStr ''URL is required'')]\<rparr>, server_start)
   \<and> post_extract_images calm_env (JObj [(''url'', JNull)]) server_start =
     (\<lparr>status = 400, body = JObj [(''error'', JStr ''URL is required'')]\<rparr>, server_start)
   \<and> post_extract_images calm_env (JObj [(''url'', JBool False)]) server_start =
     (\<lparr>status = 400, body = JObj [(''error'', JStr ''URL is required'')]\<rparr>, server_start)
   \<and> post_extract_images calm_env (JObj [(''url'', JNum 0)]) server_start =
     (\<lparr>status = 400, body = JObj [(''error'', JStr ''URL is required'')]\<rparr>, server_start)"
proof -
  have a: "post_extract_images calm_env (JObj [(''url'', JStr [])]) server_start =
     (\<lparr>status = 400, body = JObj [(''error'', JStr ''URL is required'')]\<rparr>, server_start)"
    by (rule falsy_url_rejected_like_missing [THEN conjunct2, of _ "JStr []"]) simp_all
  have b: "post_extract_images calm_env (JObj [(''url'', JNull)]) server_start =
     (\<lparr>status = 400, body = JObj [(''error'', JStr ''URL is required'')]\<rparr>, server_start)"
    by (rule falsy_url_rejected_like_missing [THEN conjunct2, of _ JNull]) simp_all
  have c: "post_extract_images calm_env (JObj [(''url'', JBool False)]) server_start =
     (\<lparr>status = 400, body = JObj [(''error'', JStr ''URL is required'')]\<rparr>, server_start)"
    by (rule falsy_url_rejected_like_missing [THEN conjunct2, of _ "JBool False"]) simp_all
  have d: "post_extract_images calm_env (JObj [(''url'', JNum 0)]) server_start =
     (\<lparr>status = 400, body = JObj [(''error'', JStr ''URL is required'')]\<rparr>, server_start)"
    by (rule falsy_url_rejected_like_missing [THEN conjunct2, of _ "JNum 0"]) simp_all
  from a b c d show ?thesis
    by (intro conjI)
qed

text \<open>
  C9. In a response of status 200 the \<^verbatim>\<open>count\<close> field is the number of elements of the
  \<^verbatim>\<open>images\<close> array and the \<^verbatim>\<open>url\<close> field is the \<^verbatim>\<open>url\<close> of the request body.
\<close>

theorem success_count_and_url:
  assumes post: "post_extract_images env req_body s = (resp, s')"
    and ok: "status resp = 200"
  shows "\<exists>items. get_prop (body resp) ''images'' = Some (JArr items)
           \<and> get_prop (body resp) ''count'' = Some (JNum (of_nat (length items)))
           \<and> get_prop (body resp) ''url'' = get_prop req_body ''url''"
proof (cases "truthy (get_prop req_body ''url'')")
  case False
  with post have "resp = url_required"
    by (simp add: post_extract_images_def)
  with ok show ?thesis
    by (simp add: url_required_def)
next
  case True
  then obtain u where u: "get_prop req_body ''url'' = Some u"
    by (cases "get_prop req_body ''url''") simp_all
  obtain r s1 where t: "try_block env u s = (r, s1)"
    by (cases "try_block env u s")
  show ?thesis
  proof (cases r)
    case (Inl m)
    with True post t u have "resp = extraction_failed m"
      by (simp add: post_extract_images_def)
    with ok show ?thesis
      by (simp add: extraction_failed_def)
  next
    case (Inr imageData)
    with True post t u have "resp = extraction_succeeded imageData u"
      by (simp add: post_extract_images_def)
    then have "get_prop (body resp) ''images'' = Some (JArr (map image_json imageData))
        \<and> get_prop (body resp) ''count'' = Some (JNum (of_nat (length (map image_json imageData))))
        \<and> get_prop (body resp) ''url'' = get_prop req_body ''url''"
      by (simp add: extraction_succeeded_def u)
    then show ?thesis
      by blast
  qed
qed

theorem success_count_and_url_witness:
  "status (fst (post_extract_images calm_env example_body server_start)) = 200
   \<and> (\<exists>items.
        get_prop (body (fst (post_extract_images calm_env example_body server_start))) ''images''
          = Some (JArr items)
        \<and> get_prop (body (fst (post_extract_images calm_env example_body server_start))) ''count''
          = Some (JNum (of_nat (length items)))
        \<and> get_prop (body (fst (post_extract_images calm_env example_body server_start))) ''url''
          = get_prop example_body ''url'')"
proof -
  have ok: "status (fst (post_extract_images calm_env example_body server_start)) = 200"
    by (simp add: io_defs calm_env_def example_body_def server_start_def extraction_succeeded_def)
  have p: "post_extract_images calm_env example_body server_start =
      (fst (post_extract_images calm_env example_body server_start),
       snd (post_extract_images calm_env example_body server_start))"
    by simp
  from ok success_count_and_url [OF p ok] show ?thesis
    by (rule conjI)
qed

text \<open>
  C6, as amended. In every state the server reaches from its start, \<^verbatim>\<open>GET /health\<close>
  reports \<^verbatim>\<open>browser: true\<close> exactly when a launch of the browser has succeeded: false as
  long as none has, true after a request in which the launch succeeded, whatever became
  of the extraction. Once it reports true it reports true after any further requests.
\<close>

theorem health_reports_successful_launch:
  assumes "serve env rs server_start = (resps, s)"
  shows "reports_browser s ((Launch, None) \<in> set (events s))
         \<and> (reports_browser s True \<longrightarrow> reports_browser (snd (serve env rs' s)) True)"
proof
  from steady_serve [of env rs server_start] assms
  have "(browser s \<noteq> None) = ((Launch, None) \<in> set (events s))"
    by (auto simp: server_start_def)
  then show "reports_browser s ((Launch, None) \<in> set (events s))"
    by (simp add: reports_browser_iff)
next
  from steady_serve [of env rs' s]
  have "browser s \<noteq> None \<longrightarrow> browser (snd (serve env rs' s)) \<noteq> None"
    by auto
  then show "reports_browser s True \<longrightarrow> reports_browser (snd (serve env rs' s)) True"
    by (simp add: reports_browser_iff)
qed

lemmas serve_defs =
  get_health_def server_start_def example_body_def extraction_succeeded_def
  extraction_failed_def url_required_def

lemma reports_browser_exclusive: "reports_browser s False \<Longrightarrow> \<not> reports_browser s True"
  by (simp add: reports_browser_iff)

theorem health_reports_successful_launch_witness:
  "\<not> reports_browser (snd (serve calm_env [GetHealth, PostExtractImages (JObj [])] server_start)) True
   \<and> reports_browser (snd (serve unreachable_env [PostExtractImages example_body] server_start)) True
   \<and> (Launch, None) \<in> set (events (snd (serve unreachable_env [PostExtractImages example_body] server_start)))
   \<and> reports_browser
        (snd (serve unreachable_env [PostExtractImages (JObj []), PostExtractImages example_body, GetHealth]
               (snd (serve unreachable_env [PostExtractImages example_body] server_start)))) True"
proof -
  let ?s0 = "snd (serve calm_env [GetHealth, PostExtractImages (JObj [])] server_start)"
  let ?s1 = "snd (serve unreachable_env [PostExtractImages example_body] server_start)"
  have e0: "((Launch, None) \<in> set (events ?s0)) = False"
    by (simp add: io_defs serve_defs calm_env_def)
  have e1: "((Launch, None) \<in> set (events ?s1)) = True"
    by (simp add: io_defs serve_defs unreachable_env_def)
  have h0: "serve calm_env [GetHealth, PostExtractImages (JObj [])] server_start
      = (fst (serve calm_env [GetHealth, PostExtractImages (JObj [])] server_start), ?s0)"
    by (rule prod.collapse [symmetric])
  have h1: "serve unreachable_env [PostExtractImages example_body] server_start
      = (fst (serve unreachable_env [PostExtractImages example_body] server_start), ?s1)"
    by (rule prod.collapse [symmetric])
  have "reports_browser ?s0 ((Launch, None) \<in> set (events ?s0))"
    by (rule health_reports_successful_launch [OF h0, THEN conjunct1])
  then have "reports_browser ?s0 False"
    by (simp only: e0)
  then have a: "\<not> reports_browser ?s0 True"
    by (rule reports_browser_exclusive)
  have "reports_browser ?s1 ((Launch, None) \<in> set (events ?s1))"
    by (rule health_reports_successful_launch [OF h1, THEN conjunct1])
  then have b: "reports_browser ?s1 True"
    by (simp only: e1)
  have c: "reports_browser
      (snd (serve unreachable_env [PostExtractImages (JObj []), PostExtractImages example_body, GetHealth] ?s1))
      True"
    by (rule health_reports_successful_launch [OF h1, THEN conjunct2, THEN mp, OF b])
  from e1 have d: "(Launch, None) \<in> set (events ?s1)"
    by (rule iffD2) (rule TrueI)
  from a b d c show ?thesis
    by (intro conjI)
qed

text \<open>
  The claim as stated fails: a request that reaches \<open>initBrowser\<close> and whose launch throws
  is answered with status 500 and leaves \<^verbatim>\<open>browser\<close> at \<^verbatim>\<open>null\<close>; the health check
  after it reports \<^verbatim>\<open>browser: false\<close>.
\<close>

theorem failed_launch_counterexample:
  "serve launch_fails_env [PostExtractImages example_body, GetHealth] server_start =
     ([\<lparr>status = 500,
        body = JObj [(''error'', JStr ''Failed to extract images''),
                     (''message'', JStr ''Failed to launch the browser process'')]\<rparr>,
       \<lparr>status = 200, body = JObj [(''status'', JStr ''OK''), (''browser'', JBool False)]\<rparr>],
      \<lparr>browser = None, events = [(Launch, Some ''Failed to launch the browser process'')]\<rparr>)"
  by (simp add: io_defs serve_defs launch_fails_env_def)

section \<open>The page-scroll routine\<close>

lemma bind_io_assoc: "bind_io (bind_io m f) g = bind_io m (\<lambda>x. bind_io (f x) g)"
  by (rule ext) (simp add: bind_io_def split: prod.splits sum.splits)

lemma bind_io_return: "bind_io (return_io x) f = f x"
  by (rule ext) (simp add: bind_io_def return_io_def)

lemma bind_io_unit: "bind_io m return_io = m"
  by (rule ext) (simp add: bind_io_def return_io_def split: prod.splits sum.splits)

lemma perform_append:
  "perform env (as @ bs) = bind_io (perform env as) (\<lambda>_. perform env bs)"
  by (induction as) (simp_all add: bind_io_return bind_io_assoc)

lemma scroll_loop_perform_from:
  "scroll_loop env viewportHeight i =
     perform env (concat (map (\<lambda>k. [EvaluateScrollTo 0 (k * viewportHeight), WaitForTimeout 1000])
       [i..<scrollSteps]))"
proof (induction env viewportHeight i rule: scroll_loop.induct)
  case (1 env viewportHeight i)
  show ?case
  proof (cases "i < scrollSteps")
    case True
    then have "[i..<scrollSteps] = i # [i + 1..<scrollSteps]"
      by (simp add: upt_conv_Cons)
    with True "1.IH" show ?thesis
      by (subst scroll_loop.simps) simp
  next
    case False
    then show ?thesis
      by (subst scroll_loop.simps) simp
  qed
qed

lemma scroll_loop_perform:
  "scroll_loop env viewportHeight 0 =
     perform env (concat (map (\<lambda>k. [EvaluateScrollTo 0 (k * viewportHeight), WaitForTimeout 1000])
       [0, 1, 2, 3, 4]))"
proof -
  have "[0..<scrollSteps] = [0, 1, 2, 3, 4]"
    by (simp add: scrollSteps_def upt_rec)
  then show ?thesis
    by (simp only: scroll_loop_perform_from)
qed

lemma scrollPageToLoadImages_perform:
  "scrollPageToLoadImages env s =
     perform env (scroll_schedule (window_innerHeight env (events s))) s"
proof -
  let ?vh = "window_innerHeight env (events s)"
  let ?loop = "concat (map (\<lambda>k. [EvaluateScrollTo 0 (k * ?vh), WaitForTimeout 1000]) [0, 1, 2, 3, 4])"
  let ?rest = "\<lambda>viewportHeight. bind_io (scroll_loop env viewportHeight 0)
         (\<lambda>_. bind_io (call env (EvaluateScrollTo 0 0)) (\<lambda>_. call env (WaitForTimeout 1000)))"
  have "bind_io (call env (WaitForTimeout 1000)) (\<lambda>_. return_io ()) = call env (WaitForTimeout 1000)"
    using bind_io_unit [of "call env (WaitForTimeout 1000)"] by simp
  then have top: "perform env [EvaluateScrollTo 0 0, WaitForTimeout 1000]
      = bind_io (call env (EvaluateScrollTo 0 0)) (\<lambda>_. call env (WaitForTimeout 1000))"
    by (simp only: perform.simps)
  have rest: "?rest ?vh = perform env (?loop @ [EvaluateScrollTo 0 0, WaitForTimeout 1000])"
    by (simp only: perform_append scroll_loop_perform top)
  have "scrollPageToLoadImages env s = bind_io (evaluate_innerHeight env) ?rest s"
    by (simp add: scrollPageToLoadImages_def)
  also have "\<dots> = bind_io (bind_io (call env EvaluateInnerHeight) (\<lambda>_. return_io ?vh)) ?rest s"
    by (simp add: bind_io_def evaluate_innerHeight_def)
  also have "\<dots> = bind_io (call env EvaluateInnerHeight) (\<lambda>_. ?rest ?vh) s"
    by (simp only: bind_io_assoc bind_io_return)
  also have "\<dots> = perform env (EvaluateInnerHeight # ?loop @ [EvaluateScrollTo 0 0, WaitForTimeout 1000]) s"
    by (simp only: rest perform.simps)
  finally show ?thesis
    by (simp only: scroll_schedule_def)
qed

lemma perform_Nil: "perform env [] s = (Inr (), s)"
  by (simp add: return_io_def)

lemma perform_Cons:
  "perform env (a # as) s =
     (case failure env (events s) a of
        Some m \<Rightarrow> (Inl m, s\<lparr>events := events s @ [(a, Some m)]\<rparr>)
      | None \<Rightarrow> perform env as (s\<lparr>events := events s @ [succeeded a]\<rparr>))"
  by (simp add: bind_io_def call_def succeeded_def split: option.splits)

declare perform.simps [simp del]

lemma perform_prefix:
  "\<exists>evs. events (snd (perform env as s)) = events s @ evs \<and> prefix (map fst evs) as"
proof (induction as arbitrary: s)
  case Nil
  then show ?case by (simp add: perform_Nil)
next
  case (Cons a as)
  show ?case
  proof (cases "failure env (events s) a")
    case (Some m)
    then have "events (snd (perform env (a # as) s)) = events s @ [(a, Some m)]"
      by (simp add: perform_Cons)
    then show ?thesis by simp
  next
    case None
    let ?s1 = "s\<lparr>events := events s @ [succeeded a]\<rparr>"
    from Cons.IH [of ?s1] obtain evs
      where e: "events (snd (perform env as ?s1)) = events ?s1 @ evs" and p: "prefix (map fst evs) as"
      by blast
    from None e have "events (snd (perform env (a # as) s)) = events s @ (succeeded a # evs)"
      by (simp add: perform_Cons)
    moreover from p have "prefix (map fst (succeeded a # evs)) (a # as)"
      by (simp add: succeeded_def)
    ultimately show ?thesis by blast
  qed
qed

lemma perform_Inr_state:
  "fst (perform env as s) = Inr () \<Longrightarrow>
     snd (perform env as s) = s\<lparr>events := events s @ map succeeded as\<rparr>"
proof (induction as arbitrary: s)
  case Nil
  then show ?case by (simp add: perform_Nil)
next
  case (Cons a as)
  show ?case
  proof (cases "failure env (events s) a")
    case (Some m)
    with Cons.prems show ?thesis
      by (simp add: perform_Cons)
  next
    case None
    let ?s1 = "s\<lparr>events := events s @ [succeeded a]\<rparr>"
    from None Cons.prems have "fst (perform env as ?s1) = Inr ()"
      by (simp add: perform_Cons)
    then have "snd (perform env as ?s1) = ?s1\<lparr>events := events ?s1 @ map succeeded as\<rparr>"
      by (rule Cons.IH)
    with None show ?thesis
      by (simp add: perform_Cons)
  qed
qed

lemma perform_Inr_iff:
  "(fst (perform env as s) = Inr ()) =
     (\<forall>k < length as. failure env (events s @ map succeeded (take k as)) (as ! k) = None)"
proof (induction as arbitrary: s)
  case Nil
  then show ?case by (simp add: perform_Nil)
next
  case (Cons a as)
  let ?s1 = "s\<lparr>events := events s @ [succeeded a]\<rparr>"
  have split: "(\<forall>k < length (a # as). failure env (events s @ map succeeded (take k (a # as))) ((a # as) ! k) = None)
      = (failure env (events s) a = None
         \<and> (\<forall>k < length as. failure env (events ?s1 @ map succeeded (take k as)) (as ! k) = None))"
    by (simp add: All_less_Suc2)
  show ?case
  proof (cases "failure env (events s) a")
    case (Some m)
    then show ?thesis
      unfolding split by (simp add: perform_Cons)
  next
    case None
    then have "fst (perform env (a # as) s) = fst (perform env as ?s1)"
      by (simp add: perform_Cons)
    with None Cons.IH [of ?s1] show ?thesis
      unfolding split by simp
  qed
qed

lemma perform_Inl:
  "fst (perform env as s) = Inl m \<Longrightarrow>
     \<exists>k < length as. failure env (events s @ map succeeded (take k as)) (as ! k) = Some m
        \<and> snd (perform env as s)
            = s\<lparr>events := events s @ map succeeded (take k as) @ [(as ! k, Some m)]\<rparr>"
proof (induction as arbitrary: s)
  case Nil
  then show ?case by (simp add: perform_Nil)
next
  case (Cons a as)
  show ?case
  proof (cases "failure env (events s) a")
    case (Some m')
    with Cons.prems have "m' = m"
      by (simp add: perform_Cons)
    with Some have "failure env (events s @ map succeeded (take 0 (a # as))) ((a # as) ! 0) = Some m
        \<and> snd (perform env (a # as) s)
            = s\<lparr>events := events s @ map succeeded (take 0 (a # as)) @ [((a # as) ! 0, Some m)]\<rparr>"
      by (simp add: perform_Cons)
    then show ?thesis
      by (intro exI [of _ 0]) simp
  next
    case None
    let ?s1 = "s\<lparr>events := events s @ [succeeded a]\<rparr>"
    from None Cons.prems have "fst (perform env as ?s1) = Inl m"
      by (simp add: perform_Cons)
    from Cons.IH [OF this] obtain k where k: "k < length as"
      and f: "failure env (events ?s1 @ map succeeded (take k as)) (as ! k) = Some m"
      and st: "snd (perform env as ?s1)
            = ?s1\<lparr>events := events ?s1 @ map succeeded (take k as) @ [(as ! k, Some m)]\<rparr>"
      by blast
    from k f st None
    have "Suc k < length (a # as)
        \<and> failure env (events s @ map succeeded (take (Suc k) (a # as))) ((a # as) ! Suc k) = Some m
        \<and> snd (perform env (a # as) s)
            = s\<lparr>events := events s @ map succeeded (take (Suc k) (a # as))
                 @ [((a # as) ! Suc k, Some m)]\<rparr>"
      by (simp add: perform_Cons)
    then show ?thesis
      by blast
  qed
qed

text \<open>
  C8. Every run of \<open>scrollPageToLoadImages\<close> follows one fixed sequence of actions that
  depends on the viewport height only: five scrolls, to 0, 1, 2, 3 and 4 times the
  viewport height, each followed by a pause of 1000 ms, then a scroll to the top (and a
  last pause). The routine performs these actions in order and stops at the first that
  throws. It returns normally exactly when none of them throws in this run, and then it
  has performed the whole sequence; when it throws, it has performed the actions before
  the one that threw, and that one.
\<close>

theorem scroll_five_fixed_steps:
  "scrollPageToLoadImages env s
     = perform env (scroll_schedule (window_innerHeight env (events s))) s
   \<and> prefix (map fst (drop (length (events s)) (events (snd (scrollPageToLoadImages env s)))))
       (scroll_schedule (window_innerHeight env (events s)))
   \<and> ((fst (scrollPageToLoadImages env s) = Inr ()) =
        (\<forall>k < length (scroll_schedule (window_innerHeight env (events s))).
           failure env
             (events s @ map succeeded (take k (scroll_schedule (window_innerHeight env (events s)))))
             (scroll_schedule (window_innerHeight env (events s)) ! k) = None))
   \<and> (fst (scrollPageToLoadImages env s) = Inr () \<longrightarrow>
        snd (scrollPageToLoadImages env s) =
          s\<lparr>events := events s
             @ map succeeded (scroll_schedule (window_innerHeight env (events s)))\<rparr>)
   \<and> (\<forall>m. fst (scrollPageToLoadImages env s) = Inl m \<longrightarrow>
        (\<exists>k < length (scroll_schedule (window_innerHeight env (events s))).
           snd (scrollPageToLoadImages env s) =
             s\<lparr>events := events s
                @ map succeeded (take k (scroll_schedule (window_innerHeight env (events s))))
                @ [(scroll_schedule (window_innerHeight env (events s)) ! k, Some m)]\<rparr>))"
proof -
  let ?sched = "scroll_schedule (window_innerHeight env (events s))"
  have run: "scrollPageToLoadImages env s = perform env ?sched s"
    by (rule scrollPageToLoadImages_perform)
  from perform_prefix [of env ?sched s] obtain evs
    where "events (snd (perform env ?sched s)) = events s @ evs" and "prefix (map fst evs) ?sched"
    by blast
  then have pre: "prefix (map fst (drop (length (events s)) (events (snd (perform env ?sched s))))) ?sched"
    by simp
  have iff: "(fst (perform env ?sched s) = Inr ()) =
      (\<forall>k < length ?sched. failure env (events s @ map succeeded (take k ?sched)) (?sched ! k) = None)"
    by (rule perform_Inr_iff)
  have ok: "fst (perform env ?sched s) = Inr () \<longrightarrow>
      snd (perform env ?sched s) = s\<lparr>events := events s @ map succeeded ?sched\<rparr>"
    by (simp add: perform_Inr_state)
  have bad: "\<forall>m. fst (perform env ?sched s) = Inl m \<longrightarrow>
      (\<exists>k < length ?sched. snd (perform env ?sched s) =
         s\<lparr>events := events s @ map succeeded (take k ?sched) @ [(?sched ! k, Some m)]\<rparr>)"
    using perform_Inl [of env ?sched s] by blast
  from pre iff ok bad show ?thesis
    unfolding run by (intro conjI refl)
qed

theorem scroll_five_fixed_steps_witness:
  "failure close_fails_env [] ClosePage = Some ''Protocol error: Target closed''
   \<and> scrollPageToLoadImages close_fails_env server_start =
       (Inr (),
        \<lparr>browser = None,
         events = [(EvaluateInnerHeight, None),
                   (EvaluateScrollTo 0 0, None), (WaitForTimeout 1000, None),
                   (EvaluateScrollTo 0 800, None), (WaitForTimeout 1000, None),
                   (EvaluateScrollTo 0 1600, None), (WaitForTimeout 1000, None),
                   (EvaluateScrollTo 0 2400, None), (WaitForTimeout 1000, None),
                   (EvaluateScrollTo 0 3200, None), (WaitForTimeout 1000, None),
                   (EvaluateScrollTo 0 0, None), (WaitForTimeout 1000, None)]\<rparr>)"
proof -
  let ?sched = "scroll_schedule (window_innerHeight close_fails_env (events server_start))"
  note t = scroll_five_fixed_steps [of close_fails_env server_start]
  have "\<forall>a \<in> set ?sched. \<forall>evs. failure close_fails_env evs a = None"
    by (simp add: scroll_schedule_def close_fails_env_def)
  then have "\<forall>k < length ?sched.
      failure close_fails_env (events server_start @ map succeeded (take k ?sched)) (?sched ! k) = None"
    by (simp add: all_set_conv_all_nth)
  with t have r: "fst (scrollPageToLoadImages close_fails_env server_start) = Inr ()"
    by blast
  with t have "snd (scrollPageToLoadImages close_fails_env server_start) =
      server_start\<lparr>events := events server_start @ map succeeded ?sched\<rparr>"
    by blast
  with r have "scrollPageToLoadImages close_fails_env server_start =
      (Inr (), server_start\<lparr>events := events server_start @ map succeeded ?sched\<rparr>)"
    by (metis prod.collapse)
  moreover have "failure close_fails_env [] ClosePage = Some ''Protocol error: Target closed''"
    by (simp add: close_fails_env_def)
  ultimately show ?thesis
    by (simp add: server_start_def close_fails_env_def scroll_schedule_def succeeded_def)
qed

section \<open>The entries of a successful response\<close>

lemma bind_io_InrE:
  assumes "bind_io m f s = (Inr v, s')"
  obtains x s1 where "m s = (Inr x, s1)" and "f x s1 = (Inr v, s')"
  using assms by (auto simp: bind_io_def split: prod.splits sum.splits)

lemma evaluate_extraction_Inr:
  "evaluate_extraction env s = (Inr v, s') \<Longrightarrow> v = extraction_script (page_document env (events s))"
  by (auto simp: evaluate_extraction_def bind_io_def return_io_def split: prod.splits sum.splits)

lemma try_block_Inr:
  assumes "try_block env url s = (Inr v, s')"
  shows "\<exists>evs. v = extraction_script (page_document env evs)"
  using assms unfolding try_block_def
  by (elim bind_io_InrE) (auto simp: return_io_def dest!: evaluate_extraction_Inr)

text \<open>
  C4, as amended. The \<^verbatim>\<open>images\<close> array of a response of status 200 holds the entries
  of a list of candidates in which every source URL begins with the four letters http.
\<close>

theorem returned_source_starts_with_http:
  assumes post: "post_extract_images env req_body s = (resp, s')"
    and ok: "status resp = 200"
  shows "\<exists>imageData. get_prop (body resp) ''images'' = Some (JArr (map image_json imageData))
           \<and> list_all (\<lambda>c. startsWith (src c) ''http'') imageData"
proof (cases "truthy (get_prop req_body ''url'')")
  case False
  with post have "resp = url_required"
    by (simp add: post_extract_images_def)
  with ok show ?thesis
    by (simp add: url_required_def)
next
  case True
  obtain r s1 where t: "try_block env (the (get_prop req_body ''url'')) s = (r, s1)"
    by (cases "try_block env (the (get_prop req_body ''url'')) s")
  show ?thesis
  proof (cases r)
    case (Inl m)
    with True post t have "resp = extraction_failed m"
      by (simp add: post_extract_images_def)
    with ok show ?thesis
      by (simp add: extraction_failed_def)
  next
    case (Inr imageData)
    with True post t have "resp = extraction_succeeded imageData (the (get_prop req_body ''url''))"
      by (simp add: post_extract_images_def)
    then have images: "get_prop (body resp) ''images'' = Some (JArr (map image_json imageData))"
      by (simp add: extraction_succeeded_def)
    from t Inr obtain evs where "imageData = extraction_script (page_document env evs)"
      using try_block_Inr by blast
    then have "list_all (\<lambda>c. startsWith (src c) ''http'') imageData"
      by (simp add: list_all_iff extraction_script_http)
    with images show ?thesis
      by blast
  qed
qed

theorem returned_source_starts_with_http_witness:
  "status (fst (post_extract_images scheme_env example_body server_start)) = 200
   \<and> (\<exists>imageData.
        get_prop (body (fst (post_extract_images scheme_env example_body server_start))) ''images''
          = Some (JArr (map image_json imageData))
        \<and> list_all (\<lambda>c. startsWith (src c) ''http'') imageData)"
proof -
  have ok: "status (fst (post_extract_images scheme_env example_body server_start)) = 200"
    by (simp add: io_defs scheme_env_def example_body_def server_start_def extraction_succeeded_def)
  have p: "post_extract_images scheme_env example_body server_start =
      (fst (post_extract_images scheme_env example_body server_start),
       snd (post_extract_images scheme_env example_body server_start))"
    by (rule prod.collapse [symmetric])
  from ok returned_source_starts_with_http [OF p ok] show ?thesis
    by (rule conjI)
qed

text \<open>
  The claim as stated fails: a \<^verbatim>\<open>data-src\<close> attribute whose value is
  \<^verbatim>\<open>httpfoo://a/x.png\<close> passes the check, and the response of status 200 holds an
  entry whose source URL has neither the scheme http nor the scheme https.
\<close>

theorem http_prefix_counterexample:
  "fst (post_extract_images scheme_env example_body server_start) =
     \<lparr>status = 200,
      body = JObj [(''success'', JBool True),
                   (''images'',
                    JArr [JObj [(''src'', JStr ''httpfoo://a/x.png''), (''alt'', JStr ''lazy-0''),
                                (''type'', JStr ''lazy-loading''), (''width'', JNum 0),
                                (''height'', JNum 0)]]),
                   (''count'', JNum 1),
                   (''url'', JStr ''http://example.com/'')]\<rparr>
   \<and> \<not> has_http_scheme ''httpfoo://a/x.png''"
  by (simp add: io_defs scheme_env_def example_body_def server_start_def extraction_succeeded_def
      image_json_def doc_scheme_def lazy_scheme_def plain_def script_defs string_of_nat.simps digit_def
      has_http_scheme_def)

end
